theory Spec2Isabelle
  imports Complex_Main "HOL-Library.Stream"
begin

section \<open>The clockwork engine of src/index.js\<close>

text \<open>
  JavaScript numbers are modelled as mathematical reals: the development verifies the
  arithmetic the program writes down, not the rounding of IEEE doubles. The level of a
  branch is a natural number (the program only ever builds levels 1 to 8).
\<close>

subsection \<open>Branch (index.js, lines 13-23)\<close>

text \<open>
  The Immutable.js record \<open>Branch\<close>. The fields \<open>x\<close>, \<open>y\<close> and \<open>length\<close> of the source are
  \<open>x_b\<close>, \<open>y_b\<close> and \<open>length_b\<close> here; \<open>children\<close> is the Immutable list of child branches.
\<close>

datatype Branch = Branch
  (level: nat)
  (x_b: real)
  (y_b: real)
  (endX: real)
  (endY: real)
  (length_b: real)
  (rotation: real)
  (rotationChange: real)
  (children: "Branch list")

definition numLevels :: nat where
  "numLevels = 8"

text \<open>\<open>Range(0, 2)\<close>: the indices 0 and 1.\<close>

definition childRange :: "nat list" where
  "childRange = [0 ..< 2]"

text \<open>
  \<open>radians\<close> is the conversion of the package degrees-radians: degrees times \<open>\<pi> / 180\<close>.
\<close>

definition radians :: "real \<Rightarrow> real" where
  "radians degrees = degrees * (pi / 180)"

subsection \<open>nextBranchRotation and updateBranch (lines 39-60)\<close>

definition nextBranchRotation :: "Branch \<Rightarrow> real \<Rightarrow> real" where
  "nextBranchRotation branch speed =
     (let next = rotation branch + rotationChange branch * speed
      in if next > 360 then 0
         else if next < 0 then 360
         else next)"

text \<open>
  \<open>branch.merge({x, y, rotation, endX, endY, children})\<close> replaces exactly those six
  fields; \<open>level\<close>, \<open>length\<close> and \<open>rotationChange\<close> are carried over.
\<close>

fun updateBranch :: "Branch \<Rightarrow> real \<Rightarrow> real \<Rightarrow> real \<Rightarrow> Branch" where
  "updateBranch (Branch lvl bx byy ex ey len rot rc cs) x y speed =
     (let rotation' = nextBranchRotation (Branch lvl bx byy ex ey len rot rc cs) speed;
          radian = radians rotation';
          endX' = x + (len * cos radian);
          endY' = y + (len * sin radian)
      in Branch lvl x y endX' endY' len rotation' rc
           (map (\<lambda>c. updateBranch c endX' endY' speed) cs))"

subsection \<open>The random source\<close>

text \<open>
  \<open>random\<close> is a generator of the package random-js. It is modelled by the values it
  hands out: one \<open>draw\<close> per call of \<open>makeBranch\<close>, holding what the four calls in the
  body of \<open>makeBranch\<close> return, and a stream of draws in the order in which \<open>makeBranch\<close>
  is entered. (At level 1 \<open>random.integer\<close> is not called and the field is not read.)
\<close>

record draw =
  integer_100_1500 :: int  \<comment> \<open>\<open>random.integer(100, 1500)\<close>\<close>
  die_360 :: int  \<comment> \<open>\<open>random.die(360)\<close>\<close>
  die_4 :: int  \<comment> \<open>\<open>random.die(4)\<close>\<close>
  pick_sign :: int  \<comment> \<open>\<open>random.pick([1, -1])\<close>\<close>







subsection \<open>makeBranch and addChildren (lines 29-37 and 62-70)\<close>

text \<open>\<open>new Branch({level, length, rotation, rotationChange})\<close>: the other fields keep
  the defaults of the record, 0 and the empty list.\<close>

definition newBranch :: "nat \<Rightarrow> draw \<Rightarrow> Branch" where
  "newBranch lvl d =
     Branch lvl 0 0 0 0
       (if lvl = 1 then 0 else (1 / real lvl) * real_of_int (integer_100_1500 d))
       (real_of_int (die_360 d))
       (real_of_int (die_4 d * pick_sign d))
       []"

text \<open>\<open>branch.set('children', cs)\<close>.\<close>

fun set_children :: "Branch \<Rightarrow> Branch list \<Rightarrow> Branch" where
  "set_children (Branch lvl bx byy ex ey len rot rc _) cs = Branch lvl bx byy ex ey len rot rc cs"

lemma level_newBranch [simp]: "level (newBranch lvl d) = lvl"
  by (simp add: newBranch_def)

lemma level_updateBranch [simp]: "level (updateBranch b x y speed) = level b"
  by (cases b) (simp add: Let_def)

text \<open>
  \<open>makeChildren\<close> is \<open>childRange.map(() => makeBranch(nextLevel, branch.endX, branch.endY,
  speed)).toList()\<close>: one call of \<open>makeBranch\<close> per index, left to right, each taking the
  random source where the previous one left it.
\<close>

function makeBranch :: "nat \<Rightarrow> real \<Rightarrow> real \<Rightarrow> real \<Rightarrow> draw stream \<Rightarrow> Branch \<times> draw stream"
  and addChildren :: "Branch \<Rightarrow> real \<Rightarrow> draw stream \<Rightarrow> Branch \<times> draw stream"
  and makeChildren :: "nat list \<Rightarrow> nat \<Rightarrow> real \<Rightarrow> real \<Rightarrow> real \<Rightarrow> draw stream \<Rightarrow> Branch list \<times> draw stream"
where
  "makeBranch lvl x y speed rs =
     (let branch = newBranch lvl (shd rs)
      in addChildren (updateBranch branch x y speed) speed (stl rs))"
| "addChildren branch speed rs =
     (if level branch \<ge> numLevels then (branch, rs)
      else
        (let nextLevel = level branch + 1;
             (cs, rs') = makeChildren childRange nextLevel (endX branch) (endY branch) speed rs
         in (set_children branch cs, rs')))"
| "makeChildren [] lvl x y speed rs = ([], rs)"
| "makeChildren (i # is) lvl x y speed rs =
     (let (c, rs') = makeBranch lvl x y speed rs;
          (cs, rs'') = makeChildren is lvl x y speed rs'
      in (c # cs, rs''))"
  by pat_completeness auto
termination
  by (relation "inv_image (less_than <*lex*> less_than) (\<lambda>a. case a of
         Inl (lvl, x, y, speed, rs) \<Rightarrow> (numLevels - lvl, Suc 0)
       | Inr (Inl (branch, speed, rs)) \<Rightarrow> (numLevels - level branch, 0)
       | Inr (Inr (is, lvl, x, y, speed, rs)) \<Rightarrow> (numLevels - lvl, 2 + length is))")
    auto

subsection \<open>The reducer (lines 81-109)\<close>

text \<open>
  The state is the Immutable map with the keys below; \<open>window\<close> holds the two properties
  of the browser window that \<open>INIT\<close> reads. \<open>OTHER\<close> stands for any action type the
  \<open>switch\<close> has no case for. The reducer reads the random source in \<open>INIT\<close> only and
  returns what is left of it. The store dispatches \<open>INIT\<close> with speed 1 before any other
  action (line 115), so every key of the map is set when \<open>NEXT_FRAME\<close> and \<open>MOVE\<close> read it.
\<close>

record State =
  windowWidth :: real
  windowHeight :: real
  width :: real
  height :: real
  tree :: Branch
  speed :: real

record window =
  innerWidth :: real
  innerHeight :: real

datatype action = INIT "real option" | NEXT_FRAME | MOVE real real | OTHER

text \<open>\<open>action.speed || state.get('speed')\<close>: a missing speed and the speed 0 are falsy.\<close>

definition newSpeed :: "real option \<Rightarrow> State \<Rightarrow> real" where
  "newSpeed given state =
     (case given of
        None \<Rightarrow> speed state
      | Some v \<Rightarrow> if v = 0 then speed state else v)"

fun reducer :: "window \<Rightarrow> State \<Rightarrow> action \<Rightarrow> draw stream \<Rightarrow> State \<times> draw stream" where
  "reducer win state (INIT given) rs =
     (let aspectRatio = innerWidth win / innerHeight win;
          width' = 2000;
          height' = 2000 / aspectRatio;
          (t, rs') = makeBranch 1 (width' / 2) (height' / 2) 1 rs
      in (state\<lparr>windowWidth := innerWidth win,
                windowHeight := innerHeight win,
                width := width',
                height := height',
                tree := t,
                speed := newSpeed given state\<rparr>, rs'))"
| "reducer win state NEXT_FRAME rs =
     (let rootX = width state / 2;
          rootY = height state / 2;
          speed' = speed state
      in (state\<lparr>tree := updateBranch (tree state) rootX rootY speed'\<rparr>, rs))"
| "reducer win state (MOVE ax ay) rs =
     (let xDist = ax - (windowWidth state / 2);
          yDist = ay - (windowHeight state / 2);
          dist = sqrt (xDist * xDist + yDist * yDist);
          factor = windowWidth state / 3 * (if xDist < 0 then - 1 else 1)
      in (state\<lparr>speed := dist / factor\<rparr>, rs))"
| "reducer win state OTHER rs = (state, rs)"

subsection \<open>Notions used to state the properties\<close>

text \<open>All branches of a tree, parents before children, children left to right.\<close>

fun branches :: "Branch \<Rightarrow> Branch list" where
  "branches (Branch lvl bx byy ex ey len rot rc cs) =
     Branch lvl bx byy ex ey len rot rc cs # concat (map branches cs)"

text \<open>The number of levels of a tree: 1 for a branch without children.\<close>

fun depth :: "Branch \<Rightarrow> nat" where
  "depth (Branch lvl bx byy ex ey len rot rc cs) = Suc (foldr max (map depth cs) 0)"

text \<open>What is left of a tree when \<open>x\<close>, \<open>y\<close>, \<open>endX\<close>, \<open>endY\<close> and \<open>rotation\<close> are
  forgotten: level, length and rotationChange of every branch, and the children in order.\<close>

datatype Skeleton = Skeleton nat real real "Skeleton list"

fun skeleton :: "Branch \<Rightarrow> Skeleton" where
  "skeleton (Branch lvl bx byy ex ey len rot rc cs) = Skeleton lvl len rc (map skeleton cs)"

text \<open>A small tree, a draw, a state and a window, for evaluating the functions on concrete input.\<close>

definition example_tree :: Branch where
  "example_tree = Branch 1 0 0 0 0 0 359 4 [Branch 2 0 0 0 0 50 10 4 []]"

definition example_draw :: draw where
  "example_draw = \<lparr>integer_100_1500 = 100, die_360 = 1, die_4 = 4, pick_sign = - 1\<rparr>"


definition example_state :: State where
  "example_state =
     \<lparr>windowWidth = 800, windowHeight = 600, width = 2000, height = 1500,
      tree = example_tree, speed = 1\<rparr>"

definition example_window :: window where
  "example_window = \<lparr>innerWidth = 800, innerHeight = 600\<rparr>"

section \<open>Properties of updateBranch\<close>

lemma updateBranch_sel:
  shows x_updateBranch: "x_b (updateBranch b x y v) = x"
    and y_updateBranch: "y_b (updateBranch b x y v) = y"
    and length_updateBranch: "length_b (updateBranch b x y v) = length_b b"
    and rotationChange_updateBranch: "rotationChange (updateBranch b x y v) = rotationChange b"
    and rotation_updateBranch: "rotation (updateBranch b x y v) = nextBranchRotation b v"
    and endX_updateBranch:
      "endX (updateBranch b x y v) = x + length_b b * cos (radians (nextBranchRotation b v))"
    and endY_updateBranch:
      "endY (updateBranch b x y v) = y + length_b b * sin (radians (nextBranchRotation b v))"
    and children_updateBranch:
      "children (updateBranch b x y v) =
         map (\<lambda>c. updateBranch c (endX (updateBranch b x y v)) (endY (updateBranch b x y v)) v)
           (children b)"
  by (cases b; simp add: Let_def)+

lemma root_in_branches: "b \<in> set (branches b)"
  by (cases b) simp

lemma set_branches_updateBranch:
  "set (branches (updateBranch b x y v)) =
     insert (updateBranch b x y v)
       (\<Union>c \<in> set (children b).
          set (branches (updateBranch c (endX (updateBranch b x y v)) (endY (updateBranch b x y v)) v)))"
  by (cases b) (simp add: Let_def)

declare updateBranch.simps [simp del]

text \<open>A property that every result of \<open>updateBranch\<close> has holds for all branches of the
  updated tree, since every one of them is the result of a recursive call.\<close>

lemma updateBranch_all:
  assumes "\<And>b x y. P (updateBranch b x y v)"
  shows "\<forall>p \<in> set (branches (updateBranch b x y v)). P p"
proof (induction b arbitrary: x y)
  case (Branch lvl bx byy ex ey len rot rc cs)
  show ?case
    unfolding set_branches_updateBranch [of "Branch lvl bx byy ex ey len rot rc cs"]
    using Branch.IH assms by auto
qed

lemma updates_all:
  assumes "\<And>b x y v. P (updateBranch b x y v)"
  shows "\<forall>p \<in> set (branches (foldl (\<lambda>t (x, y, v). updateBranch t x y v) b (step # steps))). P p"
proof (induction steps arbitrary: b step)
  case Nil
  obtain x y v where "step = (x, y, v)" by (cases step)
  then show ?case using updateBranch_all [of P v b x y] assms by simp
next
  case (Cons s steps)
  obtain x y v where "step = (x, y, v)" by (cases step)
  then show ?case using Cons [of "updateBranch b x y v" s] by simp
qed

lemma skeleton_updateBranch: "skeleton (updateBranch b x y v) = skeleton b"
  by (induction b arbitrary: x y) (simp add: Let_def updateBranch.simps)

lemma skeleton_updates:
  "skeleton (foldl (\<lambda>t (x, y, v). updateBranch t x y v) b steps) = skeleton b"
  by (induction steps arbitrary: b) (auto simp: skeleton_updateBranch)

lemma fields_updateBranch:
  "map (\<lambda>p. (level p, length_b p, rotationChange p, length (children p)))
     (branches (updateBranch b x y v)) =
   map (\<lambda>p. (level p, length_b p, rotationChange p, length (children p))) (branches b)"
proof (induction b arbitrary: x y)
  case (Branch lvl bx byy ex ey len rot rc cs)
  then show ?case
    by (simp add: updateBranch.simps Let_def map_concat comp_def cong: map_cong)
qed

lemma fields_updates:
  "map (\<lambda>p. (level p, length_b p, rotationChange p, length (children p)))
     (branches (foldl (\<lambda>t (x, y, v). updateBranch t x y v) b steps)) =
   map (\<lambda>p. (level p, length_b p, rotationChange p, length (children p))) (branches b)"
  by (induction steps arbitrary: b) (auto simp: fields_updateBranch)

lemma rotations_updateBranch:
  "map rotation (branches (updateBranch b x y v)) =
   map (\<lambda>p. nextBranchRotation p v) (branches b)"
proof (induction b arbitrary: x y)
  case (Branch lvl bx byy ex ey len rot rc cs)
  then show ?case
    by (simp add: updateBranch.simps Let_def map_concat comp_def cong: map_cong)
qed

lemma nextBranchRotation_range:
  "0 \<le> nextBranchRotation b v \<and> nextBranchRotation b v \<le> 360"
  by (simp add: nextBranchRotation_def Let_def)

section \<open>Properties of makeBranch\<close>

lemma childRange_eq: "childRange = [0, 1]"
  by (simp add: childRange_def upt_rec)

text \<open>\<open>makeBranch\<close> with \<open>addChildren\<close> and the two calls of \<open>makeChildren\<close> unfolded.\<close>

lemma makeBranch_unfold:
  "makeBranch lvl x y v rs =
     (let b = updateBranch (newBranch lvl (shd rs)) x y v
      in if numLevels \<le> lvl then (b, stl rs)
         else (let (c0, rs0) = makeBranch (Suc lvl) (endX b) (endY b) v (stl rs);
                   (c1, rs1) = makeBranch (Suc lvl) (endX b) (endY b) v rs0
               in (set_children b [c0, c1], rs1)))"
  apply (subst makeBranch.simps)
  apply (subst addChildren.simps)
  apply (simp only: childRange_eq makeChildren.simps Let_def level_updateBranch level_newBranch)
  apply (simp split: prod.splits del: makeBranch.simps addChildren.simps)
  done

declare makeBranch.simps [simp del] addChildren.simps [simp del]

lemma makeBranch_leaf:
  "numLevels \<le> lvl \<Longrightarrow>
   makeBranch lvl x y v rs = (updateBranch (newBranch lvl (shd rs)) x y v, stl rs)"
  by (subst makeBranch_unfold) (simp add: Let_def)

lemma makeBranch_node:
  assumes "lvl < numLevels"
  obtains c0 rs0 c1 rs1 where
    "makeBranch (Suc lvl) (endX (updateBranch (newBranch lvl (shd rs)) x y v))
        (endY (updateBranch (newBranch lvl (shd rs)) x y v)) v (stl rs) = (c0, rs0)"
    "makeBranch (Suc lvl) (endX (updateBranch (newBranch lvl (shd rs)) x y v))
        (endY (updateBranch (newBranch lvl (shd rs)) x y v)) v rs0 = (c1, rs1)"
    "makeBranch lvl x y v rs =
       (set_children (updateBranch (newBranch lvl (shd rs)) x y v) [c0, c1], rs1)"
proof -
  let ?b = "updateBranch (newBranch lvl (shd rs)) x y v"
  obtain c0 rs0 where 0: "makeBranch (Suc lvl) (endX ?b) (endY ?b) v (stl rs) = (c0, rs0)"
    by (cases "makeBranch (Suc lvl) (endX ?b) (endY ?b) v (stl rs)")
  obtain c1 rs1 where 1: "makeBranch (Suc lvl) (endX ?b) (endY ?b) v rs0 = (c1, rs1)"
    by (cases "makeBranch (Suc lvl) (endX ?b) (endY ?b) v rs0")
  have "makeBranch lvl x y v rs = (set_children ?b [c0, c1], rs1)"
    using assms 0 1 by (subst makeBranch_unfold) (simp add: Let_def)
  with 0 1 show ?thesis using that by blast
qed

text \<open>Induction along the levels: a call at level \<open>numLevels\<close> or above makes no further
  call, a call below makes calls one level up.\<close>

lemma makeBranch_induct [case_names leaf node]:
  assumes leaf: "\<And>lvl x y rs. numLevels \<le> lvl \<Longrightarrow> P lvl x y rs"
    and node: "\<And>lvl x y rs. lvl < numLevels \<Longrightarrow> (\<And>x' y' rs'. P (Suc lvl) x' y' rs') \<Longrightarrow> P lvl x y rs"
  shows "P lvl x y rs"
proof (induction "numLevels - lvl" arbitrary: lvl x y rs)
  case 0
  then show ?case by (simp add: leaf)
next
  case (Suc n)
  then have "lvl < numLevels" "n = numLevels - Suc lvl" by simp_all
  then show ?case using Suc.hyps(1) node by blast
qed

lemma set_children_sel [simp]:
  "level (set_children b cs) = level b"
  "x_b (set_children b cs) = x_b b"
  "y_b (set_children b cs) = y_b b"
  "endX (set_children b cs) = endX b"
  "endY (set_children b cs) = endY b"
  "length_b (set_children b cs) = length_b b"
  "rotation (set_children b cs) = rotation b"
  "rotationChange (set_children b cs) = rotationChange b"
  "children (set_children b cs) = cs"
  by (cases b; simp)+

lemma set_children_same: "children b = cs \<Longrightarrow> set_children b cs = b"
  by (cases b) auto

lemma children_update_newBranch [simp]: "children (updateBranch (newBranch lvl d) x y v) = []"
  by (simp add: children_updateBranch newBranch_def)

lemma branches_leaf: "children b = [] \<Longrightarrow> branches b = [b]"
  by (cases b) simp

lemma branches_set_children:
  "branches (set_children b cs) = set_children b cs # concat (map branches cs)"
  by (cases b) simp

lemma depth_leaf: "children b = [] \<Longrightarrow> depth b = 1"
  by (cases b) simp

lemma depth_set_children: "depth (set_children b cs) = Suc (foldr max (map depth cs) 0)"
  by (cases b) simp

text \<open>The root of a built tree is the updated new branch, with the children added.\<close>

lemma makeBranch_root:
  "level (fst (makeBranch lvl x y v rs)) = lvl"
  "x_b (fst (makeBranch lvl x y v rs)) = x"
  "y_b (fst (makeBranch lvl x y v rs)) = y"
  "endX (fst (makeBranch lvl x y v rs)) = endX (updateBranch (newBranch lvl (shd rs)) x y v)"
  "endY (fst (makeBranch lvl x y v rs)) = endY (updateBranch (newBranch lvl (shd rs)) x y v)"
  "length_b (fst (makeBranch lvl x y v rs)) = length_b (newBranch lvl (shd rs))"
  "rotation (fst (makeBranch lvl x y v rs)) = nextBranchRotation (newBranch lvl (shd rs)) v"
  "rotationChange (fst (makeBranch lvl x y v rs)) = rotationChange (newBranch lvl (shd rs))"
proof -
  let ?b = "updateBranch (newBranch lvl (shd rs)) x y v"
  have "\<exists>cs. fst (makeBranch lvl x y v rs) = set_children ?b cs"
  proof (cases "lvl < numLevels")
    case True
    then show ?thesis by (rule makeBranch_node [of lvl rs x y v]) auto
  next
    case False
    then have "fst (makeBranch lvl x y v rs) = set_children ?b []"
      by (simp add: makeBranch_leaf set_children_same)
    then show ?thesis ..
  qed
  then obtain cs where t: "fst (makeBranch lvl x y v rs) = set_children ?b cs" ..
  show "level (fst (makeBranch lvl x y v rs)) = lvl"
    "x_b (fst (makeBranch lvl x y v rs)) = x"
    "y_b (fst (makeBranch lvl x y v rs)) = y"
    "endX (fst (makeBranch lvl x y v rs)) = endX ?b"
    "endY (fst (makeBranch lvl x y v rs)) = endY ?b"
    "length_b (fst (makeBranch lvl x y v rs)) = length_b (newBranch lvl (shd rs))"
    "rotation (fst (makeBranch lvl x y v rs)) = nextBranchRotation (newBranch lvl (shd rs)) v"
    "rotationChange (fst (makeBranch lvl x y v rs)) = rotationChange (newBranch lvl (shd rs))"
    by (simp_all add: t updateBranch_sel)
qed

text \<open>A property of every root, whatever its children are built from, holds for all
  branches of a built tree.\<close>

lemma makeBranch_all:
  assumes leaf: "\<And>lvl x y d. numLevels \<le> lvl \<Longrightarrow> P (updateBranch (newBranch lvl d) x y v)"
    and node: "\<And>lvl x y d rs0 rs1. lvl < numLevels \<Longrightarrow>
      P (set_children (updateBranch (newBranch lvl d) x y v)
          [fst (makeBranch (Suc lvl) (endX (updateBranch (newBranch lvl d) x y v))
                  (endY (updateBranch (newBranch lvl d) x y v)) v rs0),
           fst (makeBranch (Suc lvl) (endX (updateBranch (newBranch lvl d) x y v))
                  (endY (updateBranch (newBranch lvl d) x y v)) v rs1)])"
  shows "\<forall>p \<in> set (branches (fst (makeBranch lvl x y v rs))). P p"
proof (induction lvl x y rs rule: makeBranch_induct)
  case (leaf lvl x y rs)
  then show ?case by (simp add: makeBranch_leaf branches_leaf assms(1))
next
  case (node lvl x y rs)
  let ?b = "updateBranch (newBranch lvl (shd rs)) x y v"
  from node(1) obtain c0 rs0 c1 rs1 where
    c0: "makeBranch (Suc lvl) (endX ?b) (endY ?b) v (stl rs) = (c0, rs0)" and
    c1: "makeBranch (Suc lvl) (endX ?b) (endY ?b) v rs0 = (c1, rs1)" and
    t: "makeBranch lvl x y v rs = (set_children ?b [c0, c1], rs1)"
    by (rule makeBranch_node)
  have ih0: "\<forall>p \<in> set (branches c0). P p"
    using node(2)[of "endX ?b" "endY ?b" "stl rs"] by (simp add: c0)
  have ih1: "\<forall>p \<in> set (branches c1). P p"
    using node(2)[of "endX ?b" "endY ?b" rs0] by (simp add: c1)
  have root: "P (set_children ?b [c0, c1])"
    using assms(2)[OF node(1), of "shd rs" x y "stl rs" rs0] by (simp add: c0 c1)
  show ?case
    using ih0 ih1 root by (auto simp: t branches_set_children)
qed

lemma topology_all:
  "\<forall>p \<in> set (branches (fst (makeBranch lvl x y v rs))).
      (level p < numLevels \<longrightarrow> length (children p) = 2) \<and>
      (numLevels \<le> level p \<longrightarrow> children p = []) \<and>
      (\<forall>c \<in> set (children p). level c = Suc (level p))"
  by (rule makeBranch_all) (simp_all add: makeBranch_root)

lemma depth_makeBranch:
  "lvl \<le> numLevels \<Longrightarrow> depth (fst (makeBranch lvl x y v rs)) = Suc (numLevels - lvl)"
proof (induction lvl x y rs rule: makeBranch_induct)
  case (leaf lvl x y rs)
  then show ?case by (simp add: makeBranch_leaf depth_leaf)
next
  case (node lvl x y rs)
  let ?b = "updateBranch (newBranch lvl (shd rs)) x y v"
  from node(1) obtain c0 rs0 c1 rs1 where
    c0: "makeBranch (Suc lvl) (endX ?b) (endY ?b) v (stl rs) = (c0, rs0)" and
    c1: "makeBranch (Suc lvl) (endX ?b) (endY ?b) v rs0 = (c1, rs1)" and
    t: "makeBranch lvl x y v rs = (set_children ?b [c0, c1], rs1)"
    by (rule makeBranch_node)
  from node(1) have le: "Suc lvl \<le> numLevels" by simp
  have d0: "depth c0 = Suc (numLevels - Suc lvl)"
    using node(2)[OF le, of "endX ?b" "endY ?b" "stl rs"] by (simp add: c0)
  have d1: "depth c1 = Suc (numLevels - Suc lvl)"
    using node(2)[OF le, of "endX ?b" "endY ?b" rs0] by (simp add: c1)
  show ?case
    using node(1) by (simp add: t depth_set_children d0 d1)
qed

lemma attached_build:
  "\<forall>p \<in> set (branches (fst (makeBranch lvl x y v rs))). \<forall>c \<in> set (children p).
     x_b c = endX p \<and> y_b c = endY p"
  by (rule makeBranch_all) (simp_all add: makeBranch_root)

text \<open>
  The branches of a built tree, parents first, are made from the draws of the random source
  in order, one draw each; what the call returns of the source is what is left after them.
\<close>

lemma makeBranch_draws:
  assumes root: "\<And>lvl x y d cs. Q (set_children (updateBranch (newBranch lvl d) x y v) cs) d"
  shows "snd (makeBranch lvl x y v rs) =
      sdrop (length (branches (fst (makeBranch lvl x y v rs)))) rs \<and>
    list_all2 Q (branches (fst (makeBranch lvl x y v rs)))
      (stake (length (branches (fst (makeBranch lvl x y v rs)))) rs)"
proof (induction lvl x y rs rule: makeBranch_induct)
  case (leaf lvl x y rs)
  let ?b = "updateBranch (newBranch lvl (shd rs)) x y v"
  have "Q (set_children ?b []) (shd rs)" by (rule root)
  then have "Q ?b (shd rs)" by (simp add: set_children_same)
  with leaf show ?case by (simp add: makeBranch_leaf branches_leaf)
next
  case (node lvl x y rs)
  let ?b = "updateBranch (newBranch lvl (shd rs)) x y v"
  from node(1) obtain c0 rs0 c1 rs1 where
    c0: "makeBranch (Suc lvl) (endX ?b) (endY ?b) v (stl rs) = (c0, rs0)" and
    c1: "makeBranch (Suc lvl) (endX ?b) (endY ?b) v rs0 = (c1, rs1)" and
    t: "makeBranch lvl x y v rs = (set_children ?b [c0, c1], rs1)"
    by (rule makeBranch_node)
  let ?n0 = "length (branches c0)" and ?n1 = "length (branches c1)"
  have ih0: "rs0 = sdrop ?n0 (stl rs)" "list_all2 Q (branches c0) (stake ?n0 (stl rs))"
    using node(2)[of "endX ?b" "endY ?b" "stl rs"] by (simp_all add: c0)
  have ih1: "rs1 = sdrop ?n1 rs0" "list_all2 Q (branches c1) (stake ?n1 rs0)"
    using node(2)[of "endX ?b" "endY ?b" rs0] by (simp_all add: c1)
  have len: "length (branches (set_children ?b [c0, c1])) = Suc (?n0 + ?n1)"
    by (simp add: branches_set_children)
  have rest: "rs1 = sdrop (Suc (?n0 + ?n1)) rs"
    using ih0(1) ih1(1) by simp
  have "stake (?n0 + ?n1) (stl rs) = stake ?n0 (stl rs) @ stake ?n1 rs0"
    using ih0(1) by simp
  then have tk: "stake (Suc (?n0 + ?n1)) rs = shd rs # (stake ?n0 (stl rs) @ stake ?n1 rs0)"
    by simp
  have "list_all2 Q (branches c0 @ branches c1) (stake ?n0 (stl rs) @ stake ?n1 rs0)"
    using ih0(2) ih1(2) by (rule list_all2_appendI)
  moreover have "Q (set_children ?b [c0, c1]) (shd rs)" by (rule root)
  ultimately have "list_all2 Q (branches (set_children ?b [c0, c1])) (stake (Suc (?n0 + ?n1)) rs)"
    unfolding tk by (simp add: branches_set_children)
  with rest len show ?case by (simp add: t)
qed


lemma list_all2_root:
  "list_all2 Q (branches t) (stake (length (branches t)) rs) \<Longrightarrow> Q t (shd rs)"
  by (cases t) simp

section \<open>The claims\<close>

text \<open>
  C1: the rotation that \<open>updateBranch\<close> stores, in the root and in every branch below it,
  is \<open>next = rotation + rotationChange * speed\<close>, replaced by 0 when \<open>next > 360\<close> and by
  360 when \<open>next < 0\<close>, and otherwise kept. So 359 with change 4 at speed 1 gives 0, 2 with
  change -4 gives 360, and 10 with change 4 gives 14.
\<close>

theorem rotation_wraparound:
  "rotation (updateBranch b x y v) = nextBranchRotation b v \<and>
   map rotation (branches (updateBranch b x y v)) =
     map (\<lambda>p. nextBranchRotation p v) (branches b) \<and>
   nextBranchRotation b v =
     (let next = rotation b + rotationChange b * v
      in if next > 360 then 0 else if next < 0 then 360 else next) \<and>
   nextBranchRotation (Branch l bx byy ex ey len 359 4 cs) 1 = 0 \<and>
   nextBranchRotation (Branch l bx byy ex ey len 2 (- 4) cs) 1 = 360 \<and>
   nextBranchRotation (Branch l bx byy ex ey len 10 4 cs) 1 = 14"
  by (simp add: rotation_updateBranch rotations_updateBranch nextBranchRotation_def)

text \<open>
  C2: in the tree that \<open>updateBranch\<close> returns, the end point of every branch is its
  origin moved by its length in the direction of its stored rotation.
\<close>

theorem geometry_consistency:
  "\<forall>p \<in> set (branches (updateBranch b x y v)).
     endX p = x_b p + length_b p * cos (radians (rotation p)) \<and>
     endY p = y_b p + length_b p * sin (radians (rotation p))"
  by (rule updateBranch_all) (simp add: updateBranch_sel)

theorem geometry_consistency_witness:
  "Branch 2 1000 500 (1000 + 50 * cos (radians 14)) (500 + 50 * sin (radians 14)) 50 14 4 []
     \<in> set (branches (updateBranch example_tree 1000 500 1)) \<and>
   endX (hd (children (updateBranch example_tree 1000 500 1))) = 1000 + 50 * cos (radians 14) \<and>
   endY (hd (children (updateBranch example_tree 1000 500 1))) = 500 + 50 * sin (radians 14)"
  using geometry_consistency [of example_tree 1000 500 1]
  by (simp add: example_tree_def updateBranch.simps nextBranchRotation_def Let_def)

text \<open>
  C3: in a tree built by \<open>makeBranch\<close>, a branch below level \<open>numLevels\<close> has exactly two
  children, each one level further down, and a branch at level \<open>numLevels\<close> has none. A
  tree built from level 1 has exactly \<open>numLevels\<close> = 8 levels.
\<close>

theorem build_topology:
  "(\<forall>p \<in> set (branches (fst (makeBranch lvl x y v rs))).
      (level p < numLevels \<longrightarrow> length (children p) = 2) \<and>
      (level p = numLevels \<longrightarrow> length (children p) = 0) \<and>
      (\<forall>c \<in> set (children p). level c = Suc (level p))) \<and>
   level (fst (makeBranch lvl x y v rs)) = lvl \<and>
   depth (fst (makeBranch 1 x y v rs)) = numLevels \<and>
   numLevels = 8"
proof -
  have "depth (fst (makeBranch 1 x y v rs)) = numLevels"
    using depth_makeBranch [of 1 x y v rs] by (simp add: numLevels_def)
  then show ?thesis
    using topology_all [of lvl x y v rs] by (simp add: makeBranch_root numLevels_def)
qed

theorem build_topology_witness:
  "level (fst (makeBranch 1 1000 500 1 (sconst example_draw))) < numLevels \<and>
   length (children (fst (makeBranch 1 1000 500 1 (sconst example_draw)))) = 2 \<and>
   level (hd (children (fst (makeBranch 1 1000 500 1 (sconst example_draw))))) = 2 \<and>
   level (fst (makeBranch 8 1000 500 1 (sconst example_draw))) = numLevels \<and>
   length (children (fst (makeBranch 8 1000 500 1 (sconst example_draw)))) = 0 \<and>
   depth (fst (makeBranch 1 1000 500 1 (sconst example_draw))) = 8"
proof -
  let ?t = "fst (makeBranch 1 1000 500 1 (sconst example_draw))"
  let ?l = "fst (makeBranch 8 1000 500 1 (sconst example_draw))"
  note t = build_topology [of 1 1000 500 1 "sconst example_draw", unfolded numLevels_def]
  note l = build_topology [of 8 1000 500 1 "sconst example_draw", unfolded numLevels_def]
  have lt: "level ?t = 1" "level ?l = 8" "depth ?t = 8"
    using t l by simp_all
  have "length (children ?t) = 2 \<and> (\<forall>c \<in> set (children ?t). level c = Suc (level ?t))"
    using t root_in_branches [of ?t] lt by auto
  moreover from this have "hd (children ?t) \<in> set (children ?t)"
    by (cases "children ?t") auto
  moreover have "length (children ?l) = 0"
    using l root_in_branches [of ?l] lt by blast
  ultimately show ?thesis using lt by (auto simp: numLevels_def)
qed

text \<open>
  C4: \<open>updateBranch\<close> puts the root at the origin it is given, and in the tree it returns
  every child starts at the end point of its parent, at every depth.
\<close>

theorem origin_propagation:
  "x_b (updateBranch b x y v) = x \<and> y_b (updateBranch b x y v) = y \<and>
   (\<forall>p \<in> set (branches (updateBranch b x y v)). \<forall>c \<in> set (children p).
      x_b c = endX p \<and> y_b c = endY p)"
proof -
  have "\<forall>p \<in> set (branches (updateBranch b x y v)). \<forall>c \<in> set (children p).
      x_b c = endX p \<and> y_b c = endY p"
    by (rule updateBranch_all) (simp add: children_updateBranch x_updateBranch y_updateBranch)
  then show ?thesis by (simp add: updateBranch_sel)
qed

theorem origin_propagation_witness:
  "updateBranch example_tree 1000 500 1 \<in> set (branches (updateBranch example_tree 1000 500 1)) \<and>
   Branch 2 1000 500 (1000 + 50 * cos (radians 14)) (500 + 50 * sin (radians 14)) 50 14 4 []
     \<in> set (children (updateBranch example_tree 1000 500 1)) \<and>
   endX (updateBranch example_tree 1000 500 1) = 1000 \<and>
   endY (updateBranch example_tree 1000 500 1) = 500"
  using origin_propagation [of example_tree 1000 500 1]
  by (simp add: example_tree_def updateBranch.simps nextBranchRotation_def Let_def radians_def)

text \<open>
  C5: after any number of calls of \<open>updateBranch\<close>, with any origins and speeds, the tree
  has the skeleton it had: level, length and rotationChange of every branch and the children
  in their order. Only \<open>x\<close>, \<open>y\<close>, \<open>endX\<close>, \<open>endY\<close> and \<open>rotation\<close> are not part of the
  skeleton.
\<close>

theorem update_preserves_topology:
  "skeleton (foldl (\<lambda>t (x, y, v). updateBranch t x y v) b steps) = skeleton b \<and>
   map (\<lambda>p. (level p, length_b p, rotationChange p, length (children p)))
     (branches (foldl (\<lambda>t (x, y, v). updateBranch t x y v) b steps)) =
   map (\<lambda>p. (level p, length_b p, rotationChange p, length (children p))) (branches b)"
  by (simp add: skeleton_updates fields_updates)

text \<open>
  C6: a stored rotation is not always in the half-open interval \<open>[0, 360)\<close>. The
  wrap-around returns 360 itself when \<open>next < 0\<close> (and keeps \<open>next = 360\<close>), so 360 is stored
  by an update of a branch with rotation 2 and change -4 at speed 1, and by a build at speed
  1 whose root draws the seed 1 and the change -4.
\<close>

theorem rotation_half_open_counterexample:
  "updateBranch (Branch 1 0 0 0 0 0 2 (- 4) []) 1000 500 1
     \<in> set (branches (updateBranch (Branch 1 0 0 0 0 0 2 (- 4) []) 1000 500 1)) \<and>
   \<not> rotation (updateBranch (Branch 1 0 0 0 0 0 2 (- 4) []) 1000 500 1) < 360 \<and>
   fst (makeBranch 1 1000 500 1 (sconst example_draw))
     \<in> set (branches (fst (makeBranch 1 1000 500 1 (sconst example_draw)))) \<and>
   \<not> rotation (fst (makeBranch 1 1000 500 1 (sconst example_draw))) < 360"
  by (simp add: root_in_branches rotation_updateBranch makeBranch_root nextBranchRotation_def
      newBranch_def example_draw_def)

text \<open>
  C6, amended: every rotation stored by a build, or by a sequence of one or more updates of
  any tree, lies in the closed interval \<open>[0, 360]\<close>.
\<close>

theorem rotation_closed_range:
  "(\<forall>p \<in> set (branches (fst (makeBranch lvl x y v rs))). 0 \<le> rotation p \<and> rotation p \<le> 360) \<and>
   (\<forall>p \<in> set (branches (foldl (\<lambda>t (x, y, v). updateBranch t x y v) b (step # steps))).
      0 \<le> rotation p \<and> rotation p \<le> 360)"
proof
  show "\<forall>p \<in> set (branches (fst (makeBranch lvl x y v rs))). 0 \<le> rotation p \<and> rotation p \<le> 360"
    by (rule makeBranch_all) (simp_all add: rotation_updateBranch nextBranchRotation_range)
  show "\<forall>p \<in> set (branches (foldl (\<lambda>t (x, y, v). updateBranch t x y v) b (step # steps))).
      0 \<le> rotation p \<and> rotation p \<le> 360"
    by (rule updates_all) (simp add: rotation_updateBranch nextBranchRotation_range)
qed

theorem rotation_closed_range_witness:
  "rotation (fst (makeBranch 1 1000 500 1 (sconst example_draw))) = 360 \<and>
   rotation (fst (makeBranch 1 1000 500 1 (sconst example_draw))) \<le> 360 \<and>
   rotation (foldl (\<lambda>t (x, y, v). updateBranch t x y v) example_tree
       [(1000, 500, 1), (1000, 500, 2)]) = 8 \<and>
   rotation (foldl (\<lambda>t (x, y, v). updateBranch t x y v) example_tree
       [(1000, 500, 1), (1000, 500, 2)]) \<le> 360"
proof -
  let ?t = "fst (makeBranch 1 1000 500 1 (sconst example_draw))"
  let ?u = "foldl (\<lambda>t (x, y, v). updateBranch t x y v) example_tree
       [(1000, 500, 1), (1000, 500, 2)]"
  note r = rotation_closed_range [of 1 1000 500 1 "sconst example_draw" example_tree
       "(1000, 500, 1)" "[(1000, 500, 2)]"]
  have "0 \<le> rotation ?t \<and> rotation ?t \<le> 360" "0 \<le> rotation ?u \<and> rotation ?u \<le> 360"
    using r root_in_branches [of ?t] root_in_branches [of ?u] by blast+
  moreover have "rotation ?t = 360"
    by (simp add: makeBranch_root nextBranchRotation_def newBranch_def example_draw_def)
  moreover have "rotation ?u = 8"
    by (simp add: rotation_updateBranch rotationChange_updateBranch nextBranchRotation_def
        example_tree_def)
  ultimately show ?thesis by simp
qed




text \<open>
  C8: a \<open>MOVE\<close> to \<open>(x, y)\<close> sets the speed to the distance of \<open>(x, y)\<close> from the centre of
  the window, divided by a third of the window's width, negated when \<open>x\<close> is left of the
  centre; off the centre column that is the sign of \<open>x - windowWidth / 2\<close>. In a window 800
  wide, 10 to the left of the centre gives a negative speed and 10 to the right a positive one.
\<close>

theorem move_speed:
  "speed (fst (reducer win st (MOVE ax ay) rs)) =
     sqrt ((ax - windowWidth st / 2)\<^sup>2 + (ay - windowHeight st / 2)\<^sup>2) /
       (windowWidth st / 3 * (if ax - windowWidth st / 2 < 0 then - 1 else 1)) \<and>
   (ax \<noteq> windowWidth st / 2 \<longrightarrow>
      speed (fst (reducer win st (MOVE ax ay) rs)) =
        sqrt ((ax - windowWidth st / 2)\<^sup>2 + (ay - windowHeight st / 2)\<^sup>2) /
          (windowWidth st / 3 * sgn (ax - windowWidth st / 2))) \<and>
   (windowWidth st = 800 \<longrightarrow>
      speed (fst (reducer win st (MOVE (windowWidth st / 2 - 10) (windowHeight st / 2)) rs)) < 0 \<and>
      speed (fst (reducer win st (MOVE (windowWidth st / 2 + 10) (windowHeight st / 2)) rs)) > 0)"
  by (simp add: Let_def power2_eq_square sgn_if)

theorem move_speed_witness:
  "(390::real) \<noteq> windowWidth example_state / 2 \<and> windowWidth example_state = 800 \<and>
   speed (fst (reducer example_window example_state (MOVE 390 300) (sconst example_draw))) = - (3 / 80) \<and>
   speed (fst (reducer example_window example_state (MOVE 410 300) (sconst example_draw))) = 3 / 80"
  using move_speed [of example_window example_state 390 300 "sconst example_draw"]
    move_speed [of example_window example_state 410 300 "sconst example_draw"]
  by (simp add: example_state_def)

text \<open>
  C9: already in the tree that \<open>makeBranch\<close> returns, the root is at the origin given, every
  child starts at the end point of its parent, and the rotation of every branch is its seed
  advanced by one step of the wrap-around, \<open>rotationChange\<close> being the drawn magnitude with the
  drawn sign.
\<close>

theorem build_positions:
  "x_b (fst (makeBranch lvl x y v rs)) = x \<and> y_b (fst (makeBranch lvl x y v rs)) = y \<and>
   (\<forall>p \<in> set (branches (fst (makeBranch lvl x y v rs))). \<forall>c \<in> set (children p).
      x_b c = endX p \<and> y_b c = endY p) \<and>
   list_all2
     (\<lambda>p d.
        rotationChange p = real_of_int (die_4 d * pick_sign d) \<and>
        rotation p =
          (let next = real_of_int (die_360 d) + rotationChange p * v
           in if next > 360 then 0 else if next < 0 then 360 else next))
     (branches (fst (makeBranch lvl x y v rs)))
     (stake (length (branches (fst (makeBranch lvl x y v rs)))) rs)"
proof -
  let ?Q = "\<lambda>p d.
        rotationChange p = real_of_int (die_4 d * pick_sign d) \<and>
        rotation p =
          (let next = real_of_int (die_360 d) + rotationChange p * v
           in if next > 360 then 0 else if next < 0 then 360 else next)"
  have "list_all2 ?Q (branches (fst (makeBranch lvl x y v rs)))
     (stake (length (branches (fst (makeBranch lvl x y v rs)))) rs)"
    using makeBranch_draws [of ?Q v lvl x y rs]
    by (simp add: updateBranch_sel nextBranchRotation_def newBranch_def)
  then show ?thesis
    using attached_build [of lvl x y v rs] by (simp add: makeBranch_root)
qed

theorem build_positions_witness:
  "hd (children (fst (makeBranch 1 1000 500 1 (sconst example_draw))))
     \<in> set (children (fst (makeBranch 1 1000 500 1 (sconst example_draw)))) \<and>
   x_b (hd (children (fst (makeBranch 1 1000 500 1 (sconst example_draw))))) = 1000 \<and>
   y_b (hd (children (fst (makeBranch 1 1000 500 1 (sconst example_draw))))) = 500 \<and>
   rotationChange (fst (makeBranch 1 1000 500 1 (sconst example_draw))) = - 4 \<and>
   rotation (fst (makeBranch 1 1000 500 1 (sconst example_draw))) = 360"
proof -
  let ?t = "fst (makeBranch 1 1000 500 1 (sconst example_draw))"
  note b = build_positions [of 1 1000 500 1 "sconst example_draw"]
  have "length (children ?t) = 2"
    using topology_all [of 1 1000 500 1 "sconst example_draw"] root_in_branches [of ?t]
    by (auto simp: makeBranch_root numLevels_def)
  then have c: "hd (children ?t) \<in> set (children ?t)"
    by (cases "children ?t") auto
  have e: "endX ?t = 1000" "endY ?t = 500"
    by (simp_all add: makeBranch_root updateBranch_sel newBranch_def)
  have "x_b (hd (children ?t)) = endX ?t \<and> y_b (hd (children ?t)) = endY ?t"
    using b c root_in_branches [of ?t] by blast
  moreover have "rotationChange ?t = - 4 \<and> rotation ?t = 360"
    using list_all2_root [OF conjunct2 [OF conjunct2 [OF conjunct2 [OF b]]]]
    by (simp add: example_draw_def)
  ultimately show ?thesis using c e by simp
qed

text \<open>
  C10: a \<open>MOVE\<close> to a point of the centre column, \<open>x = windowWidth / 2\<close>, takes the factor
  with the sign \<open>+1\<close>: the speed is \<open>|y - windowHeight / 2| / (windowWidth / 3)\<close>, which is
  not negative in a window of positive width.
\<close>

theorem move_center_column:
  "speed (fst (reducer win st (MOVE (windowWidth st / 2) ay) rs)) =
     \<bar>ay - windowHeight st / 2\<bar> / (windowWidth st / 3) \<and>
   (0 < windowWidth st \<longrightarrow> 0 \<le> speed (fst (reducer win st (MOVE (windowWidth st / 2) ay) rs)))"
  by (simp add: Let_def)

theorem move_center_column_witness:
  "0 < windowWidth example_state \<and>
   speed (fst (reducer example_window example_state (MOVE 400 100) (sconst example_draw))) = 3 / 4"
  using move_center_column [of example_window example_state 100 "sconst example_draw"]
  by (simp add: example_state_def)

end
